theory Spec2Isabelle
  imports Main "HOL-Library.Word"
begin

section \<open>GPPS: the \<open>nodes\<close> table of the contract\<close>

text \<open>
  The contract \<open>gpps\<close> (src/gpps.cpp) has one table, \<open>nodes\<close>, scoped by the account
  that owns the rows. A row is a \<open>node\<close>: a 64-bit \<open>id\<close>, which is the primary key, and
  \<open>data\<close>, a vector of bytes. An account \<open>name\<close> is its 64-bit \<open>value\<close>.
\<close>

type_synonym name = "64 word"
type_synonym byte = "8 word"

record node =
  node_id :: "64 word"
  node_data :: "byte list"

definition primary_key :: "node \<Rightarrow> 64 word" where
  "primary_key n = node_id n"

text \<open>
  One instance \<open>nodes nds(_self, owner.value)\<close> is the table of one scope: the rows by
  primary key. The key of a row is the \<open>id\<close> of the object stored there, so a row maps the
  key to the remaining field, \<open>data\<close>. The whole database of the contract gives a table to
  every scope; a scope never written to has the empty table.
\<close>

type_synonym nodes = "64 word \<rightharpoonup> byte list"
type_synonym store = "name \<Rightarrow> nodes"

definition empty_store :: store where
  "empty_store = (\<lambda>scope. Map.empty)"

text \<open>
  The four operations of \<open>eosio::multi_index\<close> that the contract calls. \<open>find\<close> returns
  the object with the given key, or \<open>end()\<close> (here \<open>None\<close>). \<open>emplace\<close> runs the
  constructor on a fresh object and stores it under its primary key; \<open>modify\<close> runs the
  updater on the object an iterator points to and stores the result in that row;
  \<open>erase\<close> removes the row. Payers (RAM billing) are not modelled.
\<close>

definition nodes_find :: "nodes \<Rightarrow> 64 word \<Rightarrow> node option" where
  "nodes_find nds k =
     (case nds k of
        None \<Rightarrow> None
      | Some d \<Rightarrow> Some \<lparr>node_id = k, node_data = d\<rparr>)"

definition nodes_emplace :: "nodes \<Rightarrow> (node \<Rightarrow> node) \<Rightarrow> nodes" where
  "nodes_emplace nds constructor =
     (let n = constructor \<lparr>node_id = 0, node_data = []\<rparr>
      in nds(primary_key n \<mapsto> node_data n))"

definition nodes_modify :: "nodes \<Rightarrow> node \<Rightarrow> (node \<Rightarrow> node) \<Rightarrow> nodes" where
  "nodes_modify nds obj updater =
     (let n = updater obj
      in nds(primary_key obj \<mapsto> node_data n))"

definition nodes_erase :: "nodes \<Rightarrow> node \<Rightarrow> nodes" where
  "nodes_erase nds obj = nds(primary_key obj := None)"

subsection \<open>Failures\<close>

text \<open>
  An action stops at the first failed \<open>require_auth\<close> or \<open>check\<close>. \<open>require_auth\<close> fails
  when the account is not among those that authorized the action; \<open>check\<close> fails with
  the message of the source. The two messages of the contract are the error kinds
  \<open>NotFound\<close> and \<open>ImmutableScope\<close>.
\<close>

datatype error = MissingAuthority name | AssertFailed string

definition require_auth :: "name list \<Rightarrow> name \<Rightarrow> error + unit" where
  "require_auth auths owner =
     (if owner \<in> set auths then Inr () else Inl (MissingAuthority owner))"

definition check :: "bool \<Rightarrow> string \<Rightarrow> error + unit" where
  "check pred msg = (if pred then Inr () else Inl (AssertFailed msg))"

definition NotFound :: error where
  "NotFound = AssertFailed ''Node does not exist.''"

definition ImmutableScope :: error where
  "ImmutableScope = AssertFailed ''Immutable scope.''"

subsection \<open>The contract\<close>

text \<open>
  \<open>gpps::immutable\<close> (lines 155-164): node 0 of the scope is looked up; without it the
  scope is not immutable; with it, the scope is immutable when the data has size 2 and
  the bytes are 222 (0xDE) and 173 (0xAD). The size test comes first, as in the source,
  so the two reads are in range whenever they are made.
\<close>

definition immutable :: "name \<Rightarrow> store \<Rightarrow> bool" where
  "immutable owner s =
     (case nodes_find (s owner) 0 of
        None \<Rightarrow> False
      | Some nd \<Rightarrow>
          (length (node_data nd) = 2
           \<and> node_data nd ! 0 = 222
           \<and> node_data nd ! 1 = 173))"

text \<open>
  \<open>gpps::set\<close> (lines 119-135). The result is the outcome of the action together with
  the tables as they are when the action ends or stops. \<open>auths\<close> are the accounts that
  authorized the action.
\<close>

definition set_action ::
  "name list \<Rightarrow> name \<Rightarrow> 64 word \<Rightarrow> byte list \<Rightarrow> store \<Rightarrow> (error + unit) \<times> store" where
  "set_action auths owner nid bytes s =
     (case require_auth auths owner of
        Inl e \<Rightarrow> (Inl e, s)
      | Inr _ \<Rightarrow>
          (let nds = s owner in
           case nodes_find nds nid of
             None \<Rightarrow>
               (Inr (),
                s(owner := nodes_emplace nds
                    (\<lambda>n. n\<lparr>node_id := nid, node_data := bytes\<rparr>)))
           | Some nd \<Rightarrow>
               (case check (\<not> immutable owner s) ''Immutable scope.'' of
                  Inl e \<Rightarrow> (Inl e, s)
                | Inr _ \<Rightarrow>
                    (Inr (),
                     s(owner := nodes_modify nds nd
                         (\<lambda>n. n\<lparr>node_data := bytes\<rparr>))))))"

text \<open>
  \<open>gpps::del\<close> (lines 141-148). The iterator is found first and both checks come
  before \<open>erase\<close>; \<open>erase\<close> of \<open>end()\<close> is a failure of the table itself, which
  the first check excludes.
\<close>

definition del :: "name list \<Rightarrow> name \<Rightarrow> 64 word \<Rightarrow> store \<Rightarrow> (error + unit) \<times> store" where
  "del auths owner nid s =
     (case require_auth auths owner of
        Inl e \<Rightarrow> (Inl e, s)
      | Inr _ \<Rightarrow>
          (let nds = s owner; it = nodes_find nds nid in
           case check (it \<noteq> None) ''Node does not exist.'' of
             Inl e \<Rightarrow> (Inl e, s)
           | Inr _ \<Rightarrow>
               (case check (\<not> immutable owner s) ''Immutable scope.'' of
                  Inl e \<Rightarrow> (Inl e, s)
                | Inr _ \<Rightarrow>
                    (case it of
                       Some nd \<Rightarrow> (Inr (), s(owner := nodes_erase nds nd))
                     | None \<Rightarrow>
                         (Inl (AssertFailed ''cannot pass end iterator to erase''), s)))))"

text \<open>
  Modelled from the spec: \<open>read\<close> is not an action of the contract. The source's header
  says that data is retrieved by reading the row of the table with the scope and the id
  of the node; the spec's \<open>read(namespace, id)\<close> returns the stored bytes, or not-found
  (here \<open>None\<close>).
\<close>

definition read :: "name \<Rightarrow> 64 word \<Rightarrow> store \<Rightarrow> byte list option" where
  "read owner nid s =
     (case nodes_find (s owner) nid of
        None \<Rightarrow> None
      | Some nd \<Rightarrow> Some (node_data nd))"

subsection \<open>Sequences of actions\<close>

text \<open>
  A history of the contract is a list of actions, each with its authorizations, run one
  after the other on the tables. A failed action ends with the tables it stopped at.
\<close>

datatype action =
  Set "name list" name "64 word" "byte list"
| Del "name list" name "64 word"

fun apply_action :: "action \<Rightarrow> store \<Rightarrow> (error + unit) \<times> store" where
  "apply_action (Set auths owner nid bytes) s = set_action auths owner nid bytes s"
| "apply_action (Del auths owner nid) s = del auths owner nid s"

fun run :: "action list \<Rightarrow> store \<Rightarrow> store" where
  "run [] s = s"
| "run (a # acts) s = run acts (snd (apply_action a s))"

subsection \<open>The scenario of the spec\<close>

text \<open>
  Two accounts, by the value of their names (\<open>"alice"_n\<close>, \<open>"bob"_n\<close>), and the tables after
  \<open>alice\<close> has written \<open>[1, 2, 3]\<close> to node 1, the empty payload to node 2 and the
  bytes 0xDE, 0xAD to node 0.
\<close>

definition alice :: name where
  "alice = 0x345C850000000000"

definition bob :: name where
  "bob = 0x3D0E000000000000"

definition alice_store :: store where
  "alice_store =
     run [Set [alice] alice 1 [1, 2, 3], Set [alice] alice 2 [], Set [alice] alice 0 [0xDE, 0xAD]]
       empty_store"

section \<open>Basic facts\<close>

lemma nodes_find_None [simp]: "nodes_find nds k = None \<longleftrightarrow> nds k = None"
  by (simp add: nodes_find_def split: option.splits)

lemma immutable_iff: "immutable owner s \<longleftrightarrow> s owner 0 = Some [222, 173]"
proof (cases "s owner 0")
  case None
  then show ?thesis by (simp add: immutable_def nodes_find_def)
next
  case (Some d)
  have "(length d = 2 \<and> d ! 0 = 222 \<and> d ! 1 = 173) \<longleftrightarrow> d = [222, 173]"
  proof
    assume h: "length d = 2 \<and> d ! 0 = 222 \<and> d ! 1 = 173"
    then obtain a b where "d = [a, b]"
      by (cases d; cases "tl d") auto
    with h show "d = [222, 173]" by simp
  next
    assume "d = [222, 173]"
    then show "length d = 2 \<and> d ! 0 = 222 \<and> d ! 1 = 173" by simp
  qed
  with Some show ?thesis by (simp add: immutable_def nodes_find_def)
qed

text \<open>The two actions, branch by branch, on the rows themselves.\<close>

lemma set_action_eq:
  "set_action auths owner nid bytes s =
     (if owner \<notin> set auths then (Inl (MissingAuthority owner), s)
      else if s owner nid = None then (Inr (), s(owner := (s owner)(nid \<mapsto> bytes)))
      else if immutable owner s then (Inl ImmutableScope, s)
      else (Inr (), s(owner := (s owner)(nid \<mapsto> bytes))))"
  by (auto simp: set_action_def require_auth_def check_def ImmutableScope_def
      nodes_find_def nodes_emplace_def nodes_modify_def primary_key_def Let_def
      split: option.splits)

lemma del_eq:
  "del auths owner nid s =
     (if owner \<notin> set auths then (Inl (MissingAuthority owner), s)
      else if s owner nid = None then (Inl NotFound, s)
      else if immutable owner s then (Inl ImmutableScope, s)
      else (Inr (), s(owner := (s owner)(nid := None))))"
  by (auto simp: del_def require_auth_def check_def ImmutableScope_def NotFound_def
      nodes_find_def nodes_erase_def primary_key_def Let_def
      split: option.splits)

lemma read_eq: "read owner nid s = s owner nid"
  by (simp add: read_def nodes_find_def split: option.splits)

lemma errors_distinct: "NotFound \<noteq> ImmutableScope"
  by (simp add: NotFound_def ImmutableScope_def)

text \<open>Node 0 of an immutable scope survives every action, whoever authorized it.\<close>

lemma sentinel_step:
  assumes "s owner 0 = Some [222, 173]"
  shows "snd (apply_action a s) owner 0 = Some [222, 173]"
proof (cases a)
  case (Set auths n i p)
  show ?thesis
  proof (cases "n = owner")
    case True
    with assms Set show ?thesis
      by (cases "i = 0") (simp_all add: set_action_eq immutable_iff)
  next
    case False
    with assms Set show ?thesis by (simp add: set_action_eq)
  qed
next
  case (Del auths n i)
  show ?thesis
  proof (cases "n = owner")
    case True
    with assms Del show ?thesis by (simp add: del_eq immutable_iff)
  next
    case False
    with assms Del show ?thesis by (simp add: del_eq)
  qed
qed

lemma sentinel_run:
  "s owner 0 = Some [222, 173] \<Longrightarrow> run acts s owner 0 = Some [222, 173]"
proof (induction acts arbitrary: s)
  case Nil
  then show ?case by simp
next
  case (Cons a acts)
  from Cons.prems have "snd (apply_action a s) owner 0 = Some [222, 173]"
    by (rule sentinel_step)
  then show ?case by (simp add: Cons.IH)
qed

text \<open>The tables of the scenario.\<close>

lemma alice_store_eq:
  "alice_store = empty_store(alice := [1 \<mapsto> [1, 2, 3], 2 \<mapsto> [], 0 \<mapsto> [222, 173]])"
  by (simp add: alice_store_def set_action_eq empty_store_def)

lemma alice_store_rows:
  "alice_store alice 0 = Some [222, 173]"
  "alice_store alice 1 = Some [1, 2, 3]"
  "alice_store alice 2 = Some []"
  "alice_store alice 5 = None"
  "alice_store bob k = None"
  by (simp_all add: alice_store_eq empty_store_def alice_def bob_def)

lemma alice_neq_bob: "alice \<noteq> bob"
  by (simp add: alice_def bob_def)

section \<open>The immutability predicate\<close>

text \<open>
  C3. \<open>immutable\<close> of a scope is true exactly when node 0 of the scope exists and its
  data is the two bytes 0xDE, 0xAD. It is false when node 0 is absent (in particular
  in a scope with no node), and when node 0 holds the empty payload, the one byte 0xDE,
  the three bytes 0xDE, 0xAD, 0x00, the swapped bytes 0xAD, 0xDE, any payload whose
  length is not 2, or two bytes one of which differs.
\<close>

theorem immutable_iff_sentinel:
  "(immutable owner s \<longleftrightarrow> read owner 0 s = Some [0xDE, 0xAD])
   \<and> \<not> immutable owner empty_store
   \<and> \<not> immutable owner (s(owner := (s owner)(0 := None)))
   \<and> \<not> immutable owner (s(owner := (s owner)(0 \<mapsto> [])))
   \<and> \<not> immutable owner (s(owner := (s owner)(0 \<mapsto> [0xDE])))
   \<and> \<not> immutable owner (s(owner := (s owner)(0 \<mapsto> [0xDE, 0xAD, 0x00])))
   \<and> \<not> immutable owner (s(owner := (s owner)(0 \<mapsto> [0xAD, 0xDE])))
   \<and> (length d \<noteq> 2 \<longrightarrow> \<not> immutable owner (s(owner := (s owner)(0 \<mapsto> d))))
   \<and> (a \<noteq> 0xDE \<or> b \<noteq> 0xAD \<longrightarrow> \<not> immutable owner (s(owner := (s owner)(0 \<mapsto> [a, b]))))"
  by (auto simp: immutable_iff read_eq empty_store_def)

theorem immutable_iff_sentinel_witness:
  "immutable alice alice_store
   \<and> read alice 0 alice_store = Some [0xDE, 0xAD]
   \<and> \<not> immutable bob alice_store
   \<and> read bob 0 alice_store = None
   \<and> length [0xDE, 0xAD, 0x00 :: byte] \<noteq> 2
   \<and> \<not> immutable bob (alice_store(bob := (alice_store bob)(0 \<mapsto> [0xDE, 0xAD, 0x00])))
   \<and> (0xDE :: byte) \<noteq> 0xAD
   \<and> \<not> immutable bob (alice_store(bob := (alice_store bob)(0 \<mapsto> [0xAD, 0xDE])))"
  using immutable_iff_sentinel [of alice alice_store "[]" 0 0]
    immutable_iff_sentinel [of bob alice_store "[0xDE, 0xAD, 0x00]" "0xAD" "0xDE"]
  by (simp add: read_eq alice_store_rows)

section \<open>Immutable scopes\<close>

text \<open>
  C1, as the spec states it, fails: in the immutable scope of \<open>alice\<close>, with no node 5,
  writing node 5 succeeds and creates the node, and deleting node 5 fails with
  \<open>NotFound\<close>, not with \<open>ImmutableScope\<close>.
\<close>

theorem immutable_scope_write_new_counterexample:
  "immutable alice alice_store
   \<and> read alice 5 alice_store = None
   \<and> fst (set_action [alice] alice 5 [7] alice_store) = Inr ()
   \<and> fst (set_action [alice] alice 5 [7] alice_store) \<noteq> Inl ImmutableScope
   \<and> read alice 5 (snd (set_action [alice] alice 5 [7] alice_store)) = Some [7]
   \<and> snd (set_action [alice] alice 5 [7] alice_store) \<noteq> alice_store
   \<and> fst (del [alice] alice 5 alice_store) = Inl NotFound
   \<and> fst (del [alice] alice 5 alice_store) \<noteq> Inl ImmutableScope"
proof -
  have m: "immutable alice alice_store"
    by (simp add: immutable_iff alice_store_rows)
  have r: "read alice 5 alice_store = None"
    by (simp add: read_eq alice_store_rows)
  have w: "set_action [alice] alice 5 [7] alice_store
             = (Inr (), alice_store(alice := (alice_store alice)(5 \<mapsto> [7])))"
    by (simp add: set_action_eq alice_store_rows)
  have d: "del [alice] alice 5 alice_store = (Inl NotFound, alice_store)"
    by (simp add: del_eq alice_store_rows)
  have "(alice_store(alice := (alice_store alice)(5 \<mapsto> [7]))) alice 5 \<noteq> alice_store alice 5"
    by (simp add: alice_store_rows)
  then have c: "alice_store(alice := (alice_store alice)(5 \<mapsto> [7])) \<noteq> alice_store"
    by metis
  from m r w d c show ?thesis
    by (simp add: read_eq errors_distinct)
qed

text \<open>
  C1, amended. When node 0 of a scope holds the two bytes 0xDE, 0xAD, then after any
  further actions, every \<open>set\<close> and every \<open>del\<close> that the owner authorized and that
  targets a node which exists in the scope (node 0 among them) fails with
  \<open>ImmutableScope\<close> and leaves the tables as they were.
\<close>

theorem immutable_scope_rejects_existing:
  assumes "immutable owner s"
    and "owner \<in> set auths"
    and "read owner nid (run acts s) \<noteq> None"
  shows "set_action auths owner nid bytes (run acts s) = (Inl ImmutableScope, run acts s)
         \<and> del auths owner nid (run acts s) = (Inl ImmutableScope, run acts s)"
proof -
  from assms(1) have "run acts s owner 0 = Some [222, 173]"
    by (simp add: immutable_iff sentinel_run)
  then have "immutable owner (run acts s)"
    by (simp add: immutable_iff)
  with assms(2,3) show ?thesis
    by (simp add: set_action_eq del_eq read_eq)
qed

theorem immutable_scope_rejects_existing_witness:
  "immutable alice alice_store
   \<and> alice \<in> set [alice]
   \<and> read alice 0 (run [Set [alice] alice 5 [7], Del [bob] bob 1] alice_store) \<noteq> None
   \<and> set_action [alice] alice 0 [] (run [Set [alice] alice 5 [7], Del [bob] bob 1] alice_store)
       = (Inl ImmutableScope, run [Set [alice] alice 5 [7], Del [bob] bob 1] alice_store)
   \<and> del [alice] alice 0 (run [Set [alice] alice 5 [7], Del [bob] bob 1] alice_store)
       = (Inl ImmutableScope, run [Set [alice] alice 5 [7], Del [bob] bob 1] alice_store)"
proof -
  have m: "immutable alice alice_store"
    by (simp add: immutable_iff alice_store_rows)
  have a: "alice \<in> set [alice]"
    by simp
  have r: "read alice 0 (run [Set [alice] alice 5 [7], Del [bob] bob 1] alice_store) \<noteq> None"
    by (simp add: read_eq set_action_eq del_eq alice_store_rows alice_neq_bob)
  from m a r immutable_scope_rejects_existing [OF m a r, of "[]"] show ?thesis
    by blast
qed

text \<open>
  C2. In an immutable scope, a \<open>set\<close> that the owner authorized on an id with no node
  succeeds and creates the node with the given data: the check of \<open>immutable\<close> is on the
  branch that updates an existing node only.
\<close>

theorem immutable_scope_creates_new:
  assumes "immutable owner s"
    and "owner \<in> set auths"
    and "read owner nid s = None"
  shows "fst (set_action auths owner nid bytes s) = Inr ()
         \<and> snd (set_action auths owner nid bytes s) = s(owner := (s owner)(nid \<mapsto> bytes))
         \<and> read owner nid (snd (set_action auths owner nid bytes s)) = Some bytes"
  using assms by (simp add: set_action_eq read_eq)

theorem immutable_scope_creates_new_witness:
  "immutable alice alice_store
   \<and> alice \<in> set [alice]
   \<and> read alice 7 alice_store = None
   \<and> fst (set_action [alice] alice 7 [9, 9] alice_store) = Inr ()
   \<and> read alice 7 (snd (set_action [alice] alice 7 [9, 9] alice_store)) = Some [9, 9]"
proof -
  have m: "immutable alice alice_store"
    by (simp add: immutable_iff alice_store_rows)
  have a: "alice \<in> set [alice]"
    by simp
  have r: "read alice 7 alice_store = None"
    by (simp add: read_eq alice_store_eq empty_store_def)
  from m a r immutable_scope_creates_new [OF m a r, of "[9, 9]"] show ?thesis
    by blast
qed

text \<open>
  C4. Immutability does not end: when \<open>immutable\<close> holds of a scope, it holds after any
  sequence of \<open>set\<close> and \<open>del\<close> actions, on any scope and with any authorization,
  whether they succeed or fail.
\<close>

theorem immutable_irreversible:
  assumes "immutable owner s"
  shows "immutable owner (run acts s)"
proof -
  from assms have "s owner 0 = Some [222, 173]"
    by (simp add: immutable_iff)
  then have "run acts s owner 0 = Some [222, 173]"
    by (rule sentinel_run)
  then show ?thesis
    by (simp add: immutable_iff)
qed

theorem immutable_irreversible_witness:
  "immutable alice alice_store
   \<and> immutable alice
       (run [Set [alice] alice 0 [], Del [alice] alice 0, Set [alice] alice 0 [0xAD, 0xDE],
             Del [alice] alice 1, Set [alice] alice 9 [0], Del [alice] alice 9,
             Set [bob] alice 0 [], Set [bob] bob 0 [0xDE]] alice_store)"
proof -
  have m: "immutable alice alice_store"
    by (simp add: immutable_iff alice_store_rows)
  from m immutable_irreversible [OF m] show ?thesis
    by (rule conjI)
qed

section \<open>Deleting\<close>

text \<open>
  C5. A \<open>del\<close> that the owner authorized fails with \<open>NotFound\<close> when the node does not
  exist; when the node exists, it fails with \<open>ImmutableScope\<close> if the scope is
  immutable; otherwise it succeeds and removes exactly that node: reading it afterwards
  finds nothing, and every other node of every scope reads as before. The two failures
  leave the tables as they were.
\<close>

theorem del_outcomes:
  assumes "owner \<in> set auths"
  shows "(read owner nid s = None \<longrightarrow> del auths owner nid s = (Inl NotFound, s))
         \<and> (read owner nid s \<noteq> None \<and> immutable owner s \<longrightarrow>
              del auths owner nid s = (Inl ImmutableScope, s))
         \<and> (read owner nid s \<noteq> None \<and> \<not> immutable owner s \<longrightarrow>
              fst (del auths owner nid s) = Inr ()
              \<and> snd (del auths owner nid s) = s(owner := (s owner)(nid := None))
              \<and> read owner nid (snd (del auths owner nid s)) = None
              \<and> (\<forall>n k. (n, k) \<noteq> (owner, nid) \<longrightarrow>
                    read n k (snd (del auths owner nid s)) = read n k s))"
  using assms by (auto simp: del_eq read_eq)

theorem del_outcomes_witness:
  "bob \<in> set [bob]
   \<and> read bob 1 alice_store = None
   \<and> del [bob] bob 1 alice_store = (Inl NotFound, alice_store)
   \<and> read alice 1 alice_store \<noteq> None
   \<and> immutable alice alice_store
   \<and> alice \<in> set [alice]
   \<and> del [alice] alice 1 alice_store = (Inl ImmutableScope, alice_store)
   \<and> read bob 1 (snd (set_action [bob] bob 1 [4] alice_store)) \<noteq> None
   \<and> \<not> immutable bob (snd (set_action [bob] bob 1 [4] alice_store))
   \<and> fst (del [bob] bob 1 (snd (set_action [bob] bob 1 [4] alice_store))) = Inr ()
   \<and> read bob 1 (snd (del [bob] bob 1 (snd (set_action [bob] bob 1 [4] alice_store)))) = None
   \<and> read alice 1 (snd (del [bob] bob 1 (snd (set_action [bob] bob 1 [4] alice_store))))
       = read alice 1 (snd (set_action [bob] bob 1 [4] alice_store))"
proof -
  have b: "bob \<in> set [bob]" and a: "alice \<in> set [alice]"
    by simp_all
  have r1: "read bob 1 alice_store = None"
    by (simp add: read_eq alice_store_rows)
  have r2: "read alice 1 alice_store \<noteq> None"
    by (simp add: read_eq alice_store_rows)
  have m: "immutable alice alice_store"
    by (simp add: immutable_iff alice_store_rows)
  have r3: "read bob 1 (snd (set_action [bob] bob 1 [4] alice_store)) \<noteq> None"
    by (simp add: read_eq set_action_eq alice_store_rows)
  have m3: "\<not> immutable bob (snd (set_action [bob] bob 1 [4] alice_store))"
    by (simp add: immutable_iff set_action_eq alice_store_rows)
  have n: "(alice, 1 :: 64 word) \<noteq> (bob, 1)"
    by (simp add: alice_neq_bob)
  from b r1 r2 m a r3 m3 n
    del_outcomes [OF b, of 1 alice_store]
    del_outcomes [OF a, of 1 alice_store]
    del_outcomes [OF b, of 1 "snd (set_action [bob] bob 1 [4] alice_store)"]
  show ?thesis
    by blast
qed

text \<open>
  C10. In \<open>del\<close> the check that the node exists comes before the check of
  immutability: in an immutable scope, a \<open>del\<close> that the owner authorized on an id with
  no node fails with the message \<open>Node does not exist.\<close> (\<open>NotFound\<close>), not with
  \<open>ImmutableScope\<close>, and leaves the tables as they were.
\<close>

theorem del_missing_in_immutable_scope:
  assumes "immutable owner s"
    and "owner \<in> set auths"
    and "read owner nid s = None"
  shows "del auths owner nid s = (Inl (AssertFailed ''Node does not exist.''), s)
         \<and> fst (del auths owner nid s) = Inl NotFound
         \<and> fst (del auths owner nid s) \<noteq> Inl ImmutableScope"
  using assms by (simp add: del_eq read_eq NotFound_def ImmutableScope_def)

theorem del_missing_in_immutable_scope_witness:
  "immutable alice alice_store
   \<and> alice \<in> set [alice]
   \<and> read alice 3 alice_store = None
   \<and> del [alice] alice 3 alice_store = (Inl (AssertFailed ''Node does not exist.''), alice_store)
   \<and> fst (del [alice] alice 3 alice_store) \<noteq> Inl ImmutableScope"
proof -
  have m: "immutable alice alice_store"
    by (simp add: immutable_iff alice_store_rows)
  have a: "alice \<in> set [alice]"
    by simp
  have r: "read alice 3 alice_store = None"
    by (simp add: read_eq alice_store_eq empty_store_def)
  from m a r del_missing_in_immutable_scope [OF m a r] show ?thesis
    by blast
qed

section \<open>Writing and reading\<close>

text \<open>
  C6. A \<open>set\<close> that is performed, that is, one that succeeds, is read back exactly:
  \<open>read\<close> of the same scope and id then returns the data written, the empty payload
  included. A \<open>set\<close> that the owner authorized on an id with no node is always
  performed.
\<close>

theorem set_then_read:
  "(fst (set_action auths owner nid bytes s) = Inr () \<longrightarrow>
      read owner nid (snd (set_action auths owner nid bytes s)) = Some bytes)
   \<and> (owner \<in> set auths \<and> read owner nid s = None \<longrightarrow>
      fst (set_action auths owner nid bytes s) = Inr ())"
  by (simp add: set_action_eq read_eq)

theorem set_then_read_witness:
  "bob \<in> set [bob]
   \<and> read bob 2 alice_store = None
   \<and> fst (set_action [bob] bob 2 [] alice_store) = Inr ()
   \<and> read bob 2 (snd (set_action [bob] bob 2 [] alice_store)) = Some []
   \<and> read alice 1 alice_store = Some [1, 2, 3]
   \<and> read alice 2 alice_store = Some []"
proof -
  have b: "bob \<in> set [bob]"
    by simp
  have r: "read bob 2 alice_store = None"
    by (simp add: read_eq alice_store_rows)
  have r1: "read alice 1 alice_store = Some [1, 2, 3]" and r2: "read alice 2 alice_store = Some []"
    by (simp_all add: read_eq alice_store_rows)
  have w: "fst (set_action [bob] bob 2 [] alice_store) = Inr ()"
    by (simp add: set_action_eq alice_store_rows)
  from b r w r1 r2 set_then_read [of "[bob]" bob 2 "[]" alice_store] show ?thesis
    by blast
qed

text \<open>
  C7, as the spec states it, fails: on the empty tables, \<open>alice\<close> writes the bytes
  0xDE, 0xAD to node 0 and then the three bytes 1, 2, 3 to node 0. The first \<open>set\<close>
  makes the scope immutable, the second fails with \<open>ImmutableScope\<close>, and node 0 still
  reads 0xDE, 0xAD.
\<close>

theorem overwrite_after_sentinel_counterexample:
  "fst (set_action [alice] alice 0 [0xDE, 0xAD] empty_store) = Inr ()
   \<and> fst (set_action [alice] alice 0 [1, 2, 3]
            (snd (set_action [alice] alice 0 [0xDE, 0xAD] empty_store))) = Inl ImmutableScope
   \<and> read alice 0
        (snd (set_action [alice] alice 0 [1, 2, 3]
               (snd (set_action [alice] alice 0 [0xDE, 0xAD] empty_store)))) = Some [0xDE, 0xAD]
   \<and> read alice 0
        (snd (set_action [alice] alice 0 [1, 2, 3]
               (snd (set_action [alice] alice 0 [0xDE, 0xAD] empty_store)))) \<noteq> Some [1, 2, 3]"
  by (simp add: set_action_eq read_eq immutable_iff empty_store_def)

text \<open>
  C7, amended. Two \<open>set\<close> actions that the owner authorized on the same id, with data
  \<open>p1\<close> and then \<open>p2\<close> of any lengths: when the scope is not immutable after the first,
  the second succeeds and \<open>read\<close> returns exactly \<open>p2\<close>; the row holds nothing of \<open>p1\<close>.
\<close>

theorem overwrite_replaces:
  assumes "owner \<in> set auths"
    and "\<not> immutable owner (snd (set_action auths owner nid p1 s))"
  shows "fst (set_action auths owner nid p2 (snd (set_action auths owner nid p1 s))) = Inr ()
         \<and> read owner nid
              (snd (set_action auths owner nid p2 (snd (set_action auths owner nid p1 s))))
             = Some p2
         \<and> snd (set_action auths owner nid p2 (snd (set_action auths owner nid p1 s)))
             = s(owner := (s owner)(nid \<mapsto> p2))"
proof -
  let ?s1 = "snd (set_action auths owner nid p1 s)"
  have s1: "?s1 = s(owner := (s owner)(nid \<mapsto> p1))"
  proof (cases "s owner nid = None")
    case True
    with assms(1) show ?thesis by (simp add: set_action_eq)
  next
    case False
    show ?thesis
    proof (cases "immutable owner s")
      case True
      with \<open>s owner nid \<noteq> None\<close> assms(1) have "?s1 = s"
        by (auto simp: set_action_eq)
      with True assms(2) show ?thesis by simp
    next
      case False
      with assms(1) show ?thesis by (simp add: set_action_eq)
    qed
  qed
  from assms(2) have n: "\<not> immutable owner (s(owner := (s owner)(nid \<mapsto> p1)))"
    by (simp add: s1)
  have "set_action auths owner nid p2 (s(owner := (s owner)(nid \<mapsto> p1)))
          = (Inr (), s(owner := (s owner)(nid \<mapsto> p2)))"
    using assms(1) n by (simp add: set_action_eq)
  then show ?thesis
    by (simp add: s1 read_eq)
qed

theorem overwrite_replaces_witness:
  "bob \<in> set [bob]
   \<and> \<not> immutable bob (snd (set_action [bob] bob 0 [0xDE, 0xAD, 0x00] alice_store))
   \<and> read bob 0 (snd (set_action [bob] bob 0 [0xDE, 0xAD, 0x00] alice_store))
       = Some [0xDE, 0xAD, 0x00]
   \<and> fst (set_action [bob] bob 0 [5]
            (snd (set_action [bob] bob 0 [0xDE, 0xAD, 0x00] alice_store))) = Inr ()
   \<and> read bob 0
        (snd (set_action [bob] bob 0 [5]
               (snd (set_action [bob] bob 0 [0xDE, 0xAD, 0x00] alice_store)))) = Some [5]"
proof -
  have b: "bob \<in> set [bob]"
    by simp
  have n: "\<not> immutable bob (snd (set_action [bob] bob 0 [0xDE, 0xAD, 0x00] alice_store))"
    by (simp add: immutable_iff set_action_eq alice_store_rows)
  have r: "read bob 0 (snd (set_action [bob] bob 0 [0xDE, 0xAD, 0x00] alice_store))
             = Some [0xDE, 0xAD, 0x00]"
    by (simp add: read_eq set_action_eq alice_store_rows)
  from b n r overwrite_replaces [OF b n, of "[5]"] show ?thesis
    by blast
qed

section \<open>Failures and other scopes\<close>

text \<open>
  C8. A \<open>set\<close> or a \<open>del\<close> that fails, with whatever error, leaves the tables exactly as
  they were; so after a \<open>del\<close> that failed, every \<open>read\<close> returns what it returned
  before.
\<close>

theorem failure_changes_nothing:
  "(fst (set_action auths owner nid bytes s) = Inl e \<longrightarrow>
      snd (set_action auths owner nid bytes s) = s)
   \<and> (fst (del auths owner nid s) = Inl e \<longrightarrow>
        snd (del auths owner nid s) = s
        \<and> read n k (snd (del auths owner nid s)) = read n k s)"
  by (simp add: set_action_eq del_eq)

theorem failure_changes_nothing_witness:
  "fst (set_action [alice] alice 1 [9] alice_store) = Inl ImmutableScope
   \<and> snd (set_action [alice] alice 1 [9] alice_store) = alice_store
   \<and> fst (del [alice] alice 1 alice_store) = Inl ImmutableScope
   \<and> snd (del [alice] alice 1 alice_store) = alice_store
   \<and> read alice 1 (snd (del [alice] alice 1 alice_store)) = Some [1, 2, 3]"
proof -
  have m: "immutable alice alice_store"
    by (simp add: immutable_iff alice_store_rows)
  have w: "fst (set_action [alice] alice 1 [9] alice_store) = Inl ImmutableScope"
    using m by (simp add: set_action_eq alice_store_rows)
  have d: "fst (del [alice] alice 1 alice_store) = Inl ImmutableScope"
    using m by (simp add: del_eq alice_store_rows)
  have r: "read alice 1 alice_store = Some [1, 2, 3]"
    by (simp add: read_eq alice_store_rows)
  from w d r failure_changes_nothing [of "[alice]" alice 1 "[9]" alice_store ImmutableScope alice 1]
  show ?thesis
    by simp
qed

text \<open>
  C9. A \<open>set\<close> or a \<open>del\<close> on one scope leaves every row of every other scope as it
  was: \<open>read\<close> of any id of the other scope and \<open>immutable\<close> of the other scope return
  the same before and after, also when the id is the one just written or deleted.
\<close>

theorem other_scope_untouched:
  assumes "n1 \<noteq> n2"
  shows "snd (set_action auths n1 nid bytes s) n2 = s n2
         \<and> read n2 k (snd (set_action auths n1 nid bytes s)) = read n2 k s
         \<and> immutable n2 (snd (set_action auths n1 nid bytes s)) = immutable n2 s
         \<and> snd (del auths n1 nid s) n2 = s n2
         \<and> read n2 k (snd (del auths n1 nid s)) = read n2 k s
         \<and> immutable n2 (snd (del auths n1 nid s)) = immutable n2 s"
  using assms by (simp add: set_action_eq del_eq read_eq immutable_iff)

theorem other_scope_untouched_witness:
  "bob \<noteq> alice
   \<and> fst (set_action [bob] bob 1 [8] alice_store) = Inr ()
   \<and> read bob 1 (snd (set_action [bob] bob 1 [8] alice_store)) = Some [8]
   \<and> read alice 1 (snd (set_action [bob] bob 1 [8] alice_store)) = Some [1, 2, 3]
   \<and> immutable alice (snd (set_action [bob] bob 1 [8] alice_store))
   \<and> fst (del [bob] bob 1 (snd (set_action [bob] bob 1 [8] alice_store))) = Inr ()
   \<and> read alice 1 (snd (del [bob] bob 1 (snd (set_action [bob] bob 1 [8] alice_store))))
       = Some [1, 2, 3]"
proof -
  have ne: "bob \<noteq> alice"
    using alice_neq_bob by simp
  have m: "immutable alice alice_store"
    by (simp add: immutable_iff alice_store_rows)
  have r: "read alice 1 alice_store = Some [1, 2, 3]"
    by (simp add: read_eq alice_store_rows)
  have w: "fst (set_action [bob] bob 1 [8] alice_store) = Inr ()"
    "read bob 1 (snd (set_action [bob] bob 1 [8] alice_store)) = Some [8]"
    by (simp_all add: set_action_eq read_eq alice_store_rows)
  have d: "fst (del [bob] bob 1 (snd (set_action [bob] bob 1 [8] alice_store))) = Inr ()"
    by (simp add: set_action_eq del_eq immutable_iff alice_store_rows)
  from ne m r w d
    other_scope_untouched [OF ne, of "[bob]" 1 "[8]" alice_store 1]
    other_scope_untouched [OF ne, of "[bob]" 1 "[8]" "snd (set_action [bob] bob 1 [8] alice_store)" 1]
  show ?thesis
    by simp
qed

end
